theory Spec2Isabelle
  imports Complex_Main
begin

section \<open>Python values\<close>

text \<open>
  The exporter of \<^verbatim>\<open>transcribe_audio.py\<close> receives the dictionary returned by the
  transcription model and an output directory. A Python \<^verbatim>\<open>str\<close> is a sequence of code
  points, a \<^verbatim>\<open>dict\<close> keeps its insertion order, a \<^verbatim>\<open>float\<close> is an IEEE 754
  binary64 number. A finite binary64 number is carried as the rational it denotes
  (signed zeros are not told apart: \<^verbatim>\<open>int()\<close> maps both to \<open>0\<close>).
\<close>

type_synonym pystr = "nat list"

definition ascii :: "string \<Rightarrow> pystr" where
  "ascii s = map of_char s"

datatype pyfloat = Finite rat | PosInf | NegInf | NaN

datatype pyval =
    PNone
  | PBool bool
  | PInt int
  | PFloat pyfloat
  | PStr pystr
  | PList "pyval list"
  | PDict "(pystr \<times> pyval) list"

datatype errno = EACCES | EEXIST | ENOENT | ENOTDIR | EISDIR

datatype error =
    KeyError pystr
  | TypeError
  | AttributeError
  | ValueError
  | UnicodeEncodeError
  | OSError errno "pystr list"

section \<open>Binary64 arithmetic\<close>

text \<open>
  Every arithmetic operation on floats returns the exact result rounded to the nearest
  number with a 53-bit significand, ties to the even significand; below \<open>2\<^sup>-\<^sup>1\<^sup>0\<^sup>2\<^sup>2\<close> the
  spacing stays \<open>2\<^sup>-\<^sup>1\<^sup>0\<^sup>7\<^sup>4\<close>. No operation of \<^verbatim>\<open>format_time\<close> can exceed the
  largest finite number when its argument does not, so overflow is not represented.
\<close>

definition round_half_even :: "rat \<Rightarrow> int" where
  "round_half_even y =
     (let f = \<lfloor>y\<rfloor>; d = y - of_int f
      in if d < 1 / 2 then f
         else if 1 / 2 < d then f + 1
         else if even f then f else f + 1)"

fun bit_length :: "nat \<Rightarrow> nat" where
  "bit_length n = (if n = 0 then 0 else Suc (bit_length (n div 2)))"

declare bit_length.simps [simp del]

text \<open>\<open>ilog2 q\<close> is the exponent \<open>e\<close> with \<open>2\<^sup>e \<le> q < 2\<^sup>e\<^sup>+\<^sup>1\<close>, for \<open>q > 0\<close>.\<close>

definition ilog2 :: "rat \<Rightarrow> int" where
  "ilog2 q =
     (if 1 \<le> q then int (bit_length (nat \<lfloor>q\<rfloor>)) - 1
      else - int (bit_length (nat (\<lceil>1 / q\<rceil> - 1))))"

definition binary64_round :: "rat \<Rightarrow> rat" where
  "binary64_round q =
     (if q = 0 then 0
      else let e = max (ilog2 \<bar>q\<bar>) (- 1022);
               u = 2 powi (e - 52)
           in of_int (round_half_even (q / u)) * u)"


text \<open>A float literal denotes the binary64 number nearest to its decimal value.\<close>

definition float_literal :: "rat \<Rightarrow> pyval" where
  "float_literal q = PFloat (Finite (binary64_round q))"

definition trunc :: "rat \<Rightarrow> int" where
  "trunc q = (if 0 \<le> q then \<lfloor>q\<rfloor> else \<lceil>q\<rceil>)"

text \<open>C's \<^verbatim>\<open>fmod\<close> is exact: \<open>x - n * y\<close> with \<open>n\<close> the quotient truncated towards zero.\<close>

definition c_fmod :: "rat \<Rightarrow> rat \<Rightarrow> rat" where
  "c_fmod x y = x - y * of_int (trunc (x / y))"

text \<open>
  \<^verbatim>\<open>float.__mod__\<close>: \<^verbatim>\<open>fmod\<close>, then the divisor is added when the signs differ.
\<close>

definition float_rem :: "rat \<Rightarrow> rat \<Rightarrow> rat" where
  "float_rem vx wx =
     (let m = c_fmod vx wx
      in if m \<noteq> 0 \<and> ((wx < 0) \<noteq> (m < 0)) then binary64_round (m + wx) else m)"

text \<open>
  \<^verbatim>\<open>float.__floordiv__\<close>: the quotient \<^verbatim>\<open>(vx - mod) / wx\<close> in floating point, lowered by
  one when the signs differ, then snapped to the nearest integral value.
\<close>

definition float_floor_div :: "rat \<Rightarrow> rat \<Rightarrow> rat" where
  "float_floor_div vx wx =
     (let m = c_fmod vx wx;
          d0 = binary64_round (binary64_round (vx - m) / wx);
          d = (if m \<noteq> 0 \<and> ((wx < 0) \<noteq> (m < 0)) then binary64_round (d0 - 1) else d0)
      in if d \<noteq> 0
         then (let f = of_int \<lfloor>d\<rfloor>
               in if 1 / 2 < binary64_round (d - f) then binary64_round (f + 1) else f)
         else 0)"

section \<open>Formatting integers\<close>

fun digits :: "nat \<Rightarrow> pystr" where
  "digits n = (if n < 10 then [48 + n] else digits (n div 10) @ [48 + n mod 10])"

declare digits.simps [simp del]

text \<open>\<^verbatim>\<open>str(i)\<close> for an integer.\<close>

definition str_int :: "int \<Rightarrow> pystr" where
  "str_int n = (if n < 0 then 45 # digits (nat (- n)) else digits (nat n))"

text \<open>
  The format specification \<^verbatim>\<open>0wd\<close>: the sign first, then zeros up to the width \<open>w\<close>,
  then the decimal digits.
\<close>

definition fmt_d :: "nat \<Rightarrow> int \<Rightarrow> pystr" where
  "fmt_d w n =
     (let ds = digits (nat \<bar>n\<bar>)
      in if n < 0 then 45 # replicate (w - 1 - length ds) 48 @ ds
         else replicate (w - length ds) 48 @ ds)"

section \<open>format\_time\<close>

text \<open>The f-string of line 53.\<close>

definition hms :: "int \<Rightarrow> int \<Rightarrow> int \<Rightarrow> int \<Rightarrow> pystr" where
  "hms hours minutes secs millisecs =
     fmt_d 2 hours @ ascii '':'' @ fmt_d 2 minutes @ ascii '':'' @ fmt_d 2 secs
       @ ascii '','' @ fmt_d 3 millisecs"

text \<open>
  The operators of lines 49 to 52 dispatch on the type of \<^verbatim>\<open>seconds\<close>: integer
  arithmetic for \<^verbatim>\<open>int\<close> and \<^verbatim>\<open>bool\<close>, binary64 arithmetic for \<^verbatim>\<open>float\<close>.
  For an infinity or a NaN \<^verbatim>\<open>seconds // 3600\<close> is NaN and \<^verbatim>\<open>int\<close> raises
  \<^verbatim>\<open>ValueError\<close>; \<^verbatim>\<open>//\<close> raises \<^verbatim>\<open>TypeError\<close> for every other type.
\<close>

definition format_time_int :: "int \<Rightarrow> pystr" where
  "format_time_int seconds =
     (let hours = seconds div 3600;
          minutes = (seconds mod 3600) div 60;
          secs = seconds mod 60;
          millisecs = (seconds mod 1) * 1000
      in hms hours minutes secs millisecs)"

definition format_time_float :: "rat \<Rightarrow> pystr" where
  "format_time_float seconds =
     (let hours = trunc (float_floor_div seconds 3600);
          minutes = trunc (float_floor_div (float_rem seconds 3600) 60);
          secs = trunc (float_rem seconds 60);
          millisecs = trunc (binary64_round (float_rem seconds 1 * 1000))
      in hms hours minutes secs millisecs)"

fun format_time :: "pyval \<Rightarrow> error + pystr" where
  "format_time (PInt n) = Inr (format_time_int n)"
| "format_time (PBool b) = Inr (format_time_int (if b then 1 else 0))"
| "format_time (PFloat (Finite x)) = Inr (format_time_float x)"
| "format_time (PFloat _) = Inl ValueError"
| "format_time _ = Inl TypeError"

section \<open>Strings\<close>

text \<open>The code points for which \<^verbatim>\<open>str.isspace\<close> holds; \<^verbatim>\<open>str.strip()\<close> removes them at both ends.\<close>

definition is_space :: "nat \<Rightarrow> bool" where
  "is_space c \<longleftrightarrow>
     (9 \<le> c \<and> c \<le> 13) \<or> (28 \<le> c \<and> c \<le> 32) \<or> c = 133 \<or> c = 160 \<or> c = 5760 \<or>
     (8192 \<le> c \<and> c \<le> 8202) \<or> c = 8232 \<or> c = 8233 \<or> c = 8239 \<or> c = 8287 \<or> c = 12288"

definition strip :: "pystr \<Rightarrow> pystr" where
  "strip s = rev (dropWhile is_space (rev (dropWhile is_space s)))"

subsection \<open>UTF-8\<close>

text \<open>
  The files are opened with \<^verbatim>\<open>encoding="utf-8"\<close>: a surrogate code point cannot be encoded
  and \<^verbatim>\<open>write\<close> raises \<^verbatim>\<open>UnicodeEncodeError\<close>. Bytes are numbers below 256. On the
  POSIX systems the script is written for, text mode does not translate line ends on writing.
\<close>

definition utf8_char :: "nat \<Rightarrow> error + nat list" where
  "utf8_char c =
     (if c < 128 then Inr [c]
      else if c < 2048 then Inr [192 + c div 64, 128 + c mod 64]
      else if c < 65536 then
        (if 55296 \<le> c \<and> c < 57344 then Inl UnicodeEncodeError
         else Inr [224 + c div 4096, 128 + (c div 64) mod 64, 128 + c mod 64])
      else if c < 1114112 then
        Inr [240 + c div 262144, 128 + (c div 4096) mod 64, 128 + (c div 64) mod 64, 128 + c mod 64]
      else Inl UnicodeEncodeError)"

fun utf8_encode :: "pystr \<Rightarrow> error + nat list" where
  "utf8_encode [] = Inr []"
| "utf8_encode (c # s) =
     (case utf8_char c of
        Inl e \<Rightarrow> Inl e
      | Inr bs \<Rightarrow> (case utf8_encode s of Inl e \<Rightarrow> Inl e | Inr r \<Rightarrow> Inr (bs @ r)))"



section \<open>The JSON encoder\<close>

text \<open>
  \<^verbatim>\<open>json.dump(result, f, indent=2, ensure_ascii=False)\<close>. With \<^verbatim>\<open>ensure_ascii=False\<close> a
  string is quoted and only the quote, the backslash and the control characters below
  \<open>0x20\<close> are escaped. With an indent the item separator is a comma followed by a new
  line and the indentation, the key separator is a colon and a space. The shortest
  representation \<^verbatim>\<open>float.__repr__\<close> of a finite float is a parameter \<open>frepr\<close>.
\<close>

definition hex_digit :: "nat \<Rightarrow> nat" where
  "hex_digit d = (if d < 10 then 48 + d else 87 + d)"

definition json_escape_char :: "nat \<Rightarrow> pystr" where
  "json_escape_char c =
     (if c = 92 then [92, 92]
      else if c = 34 then [92, 34]
      else if c = 8 then 92 # ascii ''b''
      else if c = 12 then 92 # ascii ''f''
      else if c = 10 then 92 # ascii ''n''
      else if c = 13 then 92 # ascii ''r''
      else if c = 9 then 92 # ascii ''t''
      else if c < 32 then 92 # ascii ''u00'' @ [hex_digit (c div 16), hex_digit (c mod 16)]
      else [c])"

definition encode_basestring :: "pystr \<Rightarrow> pystr" where
  "encode_basestring s = 34 # concat (map json_escape_char s) @ [34]"

definition newline_indent :: "nat \<Rightarrow> pystr" where
  "newline_indent level = 10 # replicate (2 * level) 32"

definition floatstr :: "(rat \<Rightarrow> pystr) \<Rightarrow> pyfloat \<Rightarrow> pystr" where
  "floatstr frepr x =
     (case x of
        NaN \<Rightarrow> ascii ''NaN''
      | PosInf \<Rightarrow> ascii ''Infinity''
      | NegInf \<Rightarrow> ascii ''-Infinity''
      | Finite q \<Rightarrow> frepr q)"

fun iterencode :: "(rat \<Rightarrow> pystr) \<Rightarrow> nat \<Rightarrow> pyval \<Rightarrow> pystr"
  and iterencode_list :: "(rat \<Rightarrow> pystr) \<Rightarrow> nat \<Rightarrow> pyval list \<Rightarrow> pystr"
  and iterencode_dict :: "(rat \<Rightarrow> pystr) \<Rightarrow> nat \<Rightarrow> (pystr \<times> pyval) list \<Rightarrow> pystr"
where
  "iterencode frepr level PNone = ascii ''null''"
| "iterencode frepr level (PBool b) = (if b then ascii ''true'' else ascii ''false'')"
| "iterencode frepr level (PInt n) = str_int n"
| "iterencode frepr level (PFloat x) = floatstr frepr x"
| "iterencode frepr level (PStr s) = encode_basestring s"
| "iterencode frepr level (PList xs) =
     (if xs = [] then ascii ''[]''
      else ascii ''['' @ newline_indent (Suc level) @ iterencode_list frepr (Suc level) xs
             @ newline_indent level @ ascii '']'')"
| "iterencode frepr level (PDict kvs) =
     (if kvs = [] then ascii ''{}''
      else ascii ''{'' @ newline_indent (Suc level) @ iterencode_dict frepr (Suc level) kvs
             @ newline_indent level @ ascii ''}'')"
| "iterencode_list frepr level [] = []"
| "iterencode_list frepr level (x # xs) =
     iterencode frepr level x
       @ (if xs = [] then [] else ascii '','' @ newline_indent level @ iterencode_list frepr level xs)"
| "iterencode_dict frepr level [] = []"
| "iterencode_dict frepr level ((k, v) # kvs) =
     encode_basestring k @ ascii '': '' @ iterencode frepr level v
       @ (if kvs = [] then [] else ascii '','' @ newline_indent level @ iterencode_dict frepr level kvs)"

section \<open>The file system\<close>

text \<open>
  A path string is read as its list of components: empty components and \<^verbatim>\<open>.\<close> are dropped,
  a relative path starts at the working directory. Symbolic links and \<^verbatim>\<open>..\<close> are outside
  the model. The state holds the directories, the files with their bytes, and the paths
  where the operating system refuses to create or open (permissions, read-only media).
  A file whose writing was interrupted by an exception is \<open>Torn\<close>: it exists and holds some
  prefix of what was being written.
\<close>

datatype content = Whole "nat list" | Torn

record fs =
  cwd :: "pystr list"
  dirs :: "pystr list set"
  files :: "pystr list \<rightharpoonup> content"
  deny :: "pystr list \<Rightarrow> bool"

primrec split_sep :: "pystr \<Rightarrow> pystr list" where
  "split_sep [] = [[]]"
| "split_sep (c # s) =
     (if c = 47 then [] # split_sep s
      else (case split_sep s of [] \<Rightarrow> [[c]] | x # xs \<Rightarrow> (c # x) # xs))"

definition components :: "pystr \<Rightarrow> pystr list" where
  "components p = filter (\<lambda>c. c \<noteq> [] \<and> c \<noteq> [46]) (split_sep p)"

definition resolve :: "fs \<Rightarrow> pystr \<Rightarrow> pystr list" where
  "resolve s p = (if p \<noteq> [] \<and> hd p = 47 then [] else cwd s) @ components p"

text \<open>\<^verbatim>\<open>os.path.join(a, b)\<close> of \<^verbatim>\<open>posixpath\<close>.\<close>

definition path_join :: "pystr \<Rightarrow> pystr \<Rightarrow> pystr" where
  "path_join a b =
     (if b \<noteq> [] \<and> hd b = 47 then b
      else if a = [] \<or> last a = 47 then a @ b
      else a @ [47] @ b)"

text \<open>
  \<^verbatim>\<open>os.makedirs(name, exist_ok=True)\<close> walks down from the first missing directory and
  creates each level with \<^verbatim>\<open>mkdir\<close>. A level that is a directory already is accepted. A
  level that is a file stops the walk: \<^verbatim>\<open>FileExistsError\<close> for the last level,
  \<^verbatim>\<open>NotADirectoryError\<close> for the directory to be made below it. The directories made before
  a failure stay. The empty name is no path: \<^verbatim>\<open>FileNotFoundError\<close>.
\<close>

fun mkdir_chain :: "fs \<Rightarrow> pystr list \<Rightarrow> pystr list \<Rightarrow> (error + unit) \<times> fs" where
  "mkdir_chain s base [] = (Inr (), s)"
| "mkdir_chain s base (c # cs) =
     (let p = base @ [c]
      in if p \<in> dirs s then mkdir_chain s p cs
         else if files s p \<noteq> None then
           (if cs = [] then (Inl (OSError EEXIST p), s)
            else (Inl (OSError ENOTDIR (p @ [hd cs])), s))
         else if deny s p then (Inl (OSError EACCES p), s)
         else mkdir_chain (s\<lparr>dirs := insert p (dirs s)\<rparr>) p cs)"

definition makedirs :: "fs \<Rightarrow> pystr \<Rightarrow> (error + unit) \<times> fs" where
  "makedirs s name =
     (if name = [] then (Inl (OSError ENOENT []), s)
      else mkdir_chain s (if hd name = 47 then [] else cwd s) (components name))"

text \<open>
  \<^verbatim>\<open>open(path, "w", encoding="utf-8")\<close> creates the file or truncates it. It fails, leaving
  the state as it is, on a directory, below a missing directory or a file, and where the
  system refuses.
\<close>

definition open_w :: "fs \<Rightarrow> pystr \<Rightarrow> error + fs" where
  "open_w s path =
     (let p = resolve s path
      in if p \<in> dirs s then Inl (OSError EISDIR p)
         else if files s (butlast p) \<noteq> None then Inl (OSError ENOTDIR p)
         else if butlast p \<notin> dirs s then Inl (OSError ENOENT p)
         else if deny s p then Inl (OSError EACCES p)
         else Inr (s\<lparr>files := (files s)(p \<mapsto> Whole [])\<rparr>))"

text \<open>
  \<^verbatim>\<open>with open(path, "w", encoding="utf-8") as f:\<close> followed by a body that writes to
  \<open>f\<close>. The body is the text it writes, or the exception it raises; the text is encoded as
  it is written. Leaving the block closes the file.
\<close>

definition with_open_w :: "fs \<Rightarrow> pystr \<Rightarrow> error + pystr \<Rightarrow> (error + unit) \<times> fs" where
  "with_open_w s path body =
     (case open_w s path of
        Inl e \<Rightarrow> (Inl e, s)
      | Inr s1 \<Rightarrow>
          (let p = resolve s path
           in case body of
                Inl e \<Rightarrow> (Inl e, s1\<lparr>files := (files s1)(p \<mapsto> Torn)\<rparr>)
              | Inr text \<Rightarrow>
                  (case utf8_encode text of
                     Inl e \<Rightarrow> (Inl e, s1\<lparr>files := (files s1)(p \<mapsto> Torn)\<rparr>)
                   | Inr bs \<Rightarrow> (Inr (), s1\<lparr>files := (files s1)(p \<mapsto> Whole bs)\<rparr>))))"


section \<open>save\_transcript\<close>

text \<open>Subscription \<^verbatim>\<open>v[key]\<close> with a string key.\<close>

fun getitem :: "pyval \<Rightarrow> pystr \<Rightarrow> error + pyval" where
  "getitem (PDict kvs) key = (case map_of kvs key of None \<Rightarrow> Inl (KeyError key) | Some v \<Rightarrow> Inr v)"
| "getitem _ key = Inl TypeError"

text \<open>The items that iterating over a value yields.\<close>

fun iter :: "pyval \<Rightarrow> error + pyval list" where
  "iter (PList xs) = Inr xs"
| "iter (PDict kvs) = Inr (map (\<lambda>kv. PStr (fst kv)) kvs)"
| "iter (PStr s) = Inr (map (\<lambda>c. PStr [c]) s)"
| "iter _ = Inl TypeError"

text \<open>Line 27: \<^verbatim>\<open>f.write(result["text"])\<close>; \<^verbatim>\<open>write\<close> accepts a string only.\<close>

definition txt_body :: "pyval \<Rightarrow> error + pystr" where
  "txt_body result =
     (case getitem result (ascii ''text'') of
        Inl e \<Rightarrow> Inl e
      | Inr v \<Rightarrow> (case v of PStr s \<Rightarrow> Inr s | _ \<Rightarrow> Inl TypeError))"

text \<open>The method call \<^verbatim>\<open>v.strip()\<close>: only a string has the attribute.\<close>

definition strip_method :: "pyval \<Rightarrow> error + pystr" where
  "strip_method v = (case v of PStr t \<Rightarrow> Inr (strip t) | _ \<Rightarrow> Inl AttributeError)"

text \<open>Lines 38 to 41: the block written for the segment numbered \<open>i\<close>.\<close>

definition srt_block :: "nat \<Rightarrow> pyval \<Rightarrow> error + pystr" where
  "srt_block i segment =
     (case getitem segment (ascii ''start'') of Inl e \<Rightarrow> Inl e | Inr st \<Rightarrow>
     (case format_time st of Inl e \<Rightarrow> Inl e | Inr start_time \<Rightarrow>
     (case getitem segment (ascii ''end'') of Inl e \<Rightarrow> Inl e | Inr en \<Rightarrow>
     (case format_time en of Inl e \<Rightarrow> Inl e | Inr end_time \<Rightarrow>
     (case getitem segment (ascii ''text'') of Inl e \<Rightarrow> Inl e | Inr tv \<Rightarrow>
     (case strip_method tv of Inl e \<Rightarrow> Inl e | Inr text \<Rightarrow>
        Inr (str_int (int i) @ [10] @ start_time @ ascii '' --> '' @ end_time @ [10]
               @ text @ [10, 10])))))))"

text \<open>Line 37: the loop over \<^verbatim>\<open>enumerate(..., 1)\<close>, one block per item until one raises.\<close>

fun srt_blocks :: "nat \<Rightarrow> pyval list \<Rightarrow> error + pystr list" where
  "srt_blocks i [] = Inr []"
| "srt_blocks i (segment # rest) =
     (case srt_block i segment of
        Inl e \<Rightarrow> Inl e
      | Inr b \<Rightarrow> (case srt_blocks (Suc i) rest of Inl e \<Rightarrow> Inl e | Inr bs \<Rightarrow> Inr (b # bs)))"

text \<open>The items of \<^verbatim>\<open>result["segments"]\<close>, as the loop sees them.\<close>

definition segments_of :: "pyval \<Rightarrow> error + pyval list" where
  "segments_of result =
     (case getitem result (ascii ''segments'') of Inl e \<Rightarrow> Inl e | Inr sv \<Rightarrow> iter sv)"

definition srt_body :: "pyval \<Rightarrow> error + pystr" where
  "srt_body result =
     (case segments_of result of Inl e \<Rightarrow> Inl e | Inr segs \<Rightarrow>
     (case srt_blocks 1 segs of Inl e \<Rightarrow> Inl e | Inr bs \<Rightarrow> Inr (concat bs)))"

definition txt_path :: "pystr \<Rightarrow> pystr" where
  "txt_path output_dir = path_join output_dir (ascii ''transcript.txt'')"

definition json_path :: "pystr \<Rightarrow> pystr" where
  "json_path output_dir = path_join output_dir (ascii ''transcript.json'')"

definition srt_path :: "pystr \<Rightarrow> pystr" where
  "srt_path output_dir = path_join output_dir (ascii ''transcript.srt'')"

text \<open>
  Lines 18 to 43. The result is the tuple of the three paths or the exception that
  left the function, together with the file system as the call leaves it.
\<close>

definition save_transcript ::
  "(rat \<Rightarrow> pystr) \<Rightarrow> pyval \<Rightarrow> pystr \<Rightarrow> fs \<Rightarrow> (error + pystr \<times> pystr \<times> pystr) \<times> fs" where
  "save_transcript frepr result output_dir s =
     (case makedirs s output_dir of
        (Inl e, s0) \<Rightarrow> (Inl e, s0)
      | (Inr _, s0) \<Rightarrow>
     (case with_open_w s0 (txt_path output_dir) (txt_body result) of
        (Inl e, s1) \<Rightarrow> (Inl e, s1)
      | (Inr _, s1) \<Rightarrow>
     (case with_open_w s1 (json_path output_dir) (Inr (iterencode frepr 0 result)) of
        (Inl e, s2) \<Rightarrow> (Inl e, s2)
      | (Inr _, s2) \<Rightarrow>
     (case with_open_w s2 (srt_path output_dir) (srt_body result) of
        (Inl e, s3) \<Rightarrow> (Inl e, s3)
      | (Inr _, s3) \<Rightarrow>
          (Inr (txt_path output_dir, json_path output_dir, srt_path output_dir), s3)))))"

section \<open>Notions used in the statements\<close>




text \<open>The directories \<^verbatim>\<open>makedirs\<close> has to provide for a path, outermost first.\<close>

definition levels :: "fs \<Rightarrow> pystr \<Rightarrow> pystr list list" where
  "levels s name =
     map (\<lambda>k. (if hd name = 47 then [] else cwd s) @ take k (components name))
       [1 ..< Suc (length (components name))]"

text \<open>An empty disk with the working directory \<^verbatim>\<open>/home\<close>, and a small transcription.\<close>

definition demo_fs :: fs where
  "demo_fs = \<lparr>cwd = [ascii ''home''], dirs = {[], [ascii ''home'']}, files = Map.empty,
              deny = (\<lambda>p. False)\<rparr>"

definition demo_segment :: pyval where
  "demo_segment =
     PDict [(ascii ''start'', float_literal 5), (ascii ''end'', float_literal (15 / 2)),
            (ascii ''text'', PStr (ascii '' hello ''))]"

definition demo_result :: pyval where
  "demo_result =
     PDict [(ascii ''text'', PStr (ascii '' hello'')), (ascii ''segments'', PList [demo_segment]),
            (ascii ''language'', PStr (ascii ''en''))]"

text \<open>The directory of the demonstration, a stand-in for \<^verbatim>\<open>float.__repr__\<close>, and the files expected.\<close>

definition demo_dir :: pystr where
  "demo_dir = ascii ''out/run1''"

definition demo_frepr :: "rat \<Rightarrow> pystr" where
  "demo_frepr q = (if q = 5 then ascii ''5.0'' else if q = 15 / 2 then ascii ''7.5'' else ascii ''0.0'')"

definition demo_json :: pystr where
  "demo_json =
     ascii ''{'' @ [10] @
     ascii ''  \"text\": \" hello\",'' @ [10] @
     ascii ''  \"segments\": ['' @ [10] @
     ascii ''    {'' @ [10] @
     ascii ''      \"start\": 5.0,'' @ [10] @
     ascii ''      \"end\": 7.5,'' @ [10] @
     ascii ''      \"text\": \" hello \"'' @ [10] @
     ascii ''    }'' @ [10] @
     ascii ''  ],'' @ [10] @
     ascii ''  \"language\": \"en\"'' @ [10] @
     ascii ''}''"

definition demo_srt :: pystr where
  "demo_srt =
     ascii ''1'' @ [10] @ ascii ''00:00:05,000 --> 00:00:07,500'' @ [10] @ ascii ''hello'' @ [10, 10]"

text \<open>The same disk, where the system refuses to open \<^verbatim>\<open>transcript.json\<close>.\<close>

definition demo_locked :: fs where
  "demo_locked =
     demo_fs\<lparr>deny := (\<lambda>p. p = [ascii ''home'', ascii ''out'', ascii ''run1'', ascii ''transcript.json''])\<rparr>"

text \<open>That disk after the directories are made, and after the plain text file is written.\<close>

definition demo_made :: fs where
  "demo_made =
     demo_locked\<lparr>dirs := {[], [ascii ''home''], [ascii ''home'', ascii ''out''],
                            [ascii ''home'', ascii ''out'', ascii ''run1'']}\<rparr>"

definition demo_partial :: fs where
  "demo_partial =
     demo_made\<lparr>files := [[ascii ''home'', ascii ''out'', ascii ''run1'', ascii ''transcript.txt'']
                            \<mapsto> Whole (ascii '' hello'')]\<rparr>"

subsection \<open>The three ways a character is written in a JSON string\<close>





section \<open>Evaluation of the arithmetic\<close>

lemma floor_rat_numeral_div:
  "\<lfloor>numeral a / numeral b :: rat\<rfloor> = numeral a div numeral b"
  by (metis floor_divide_of_int_eq of_int_numeral)

lemma floor_rat_neg_numeral_div:
  "\<lfloor>- (numeral a / numeral b) :: rat\<rfloor> = - numeral a div numeral b"
  by (metis divide_minus_left floor_divide_of_int_eq of_int_neg_numeral of_int_numeral)

lemma floor_rat_one_div:
  "\<lfloor>1 / numeral b :: rat\<rfloor> = 1 div numeral b"
  by (metis floor_divide_of_int_eq of_int_1 of_int_numeral)

lemmas float_eval =
  floor_rat_numeral_div floor_rat_neg_numeral_div floor_rat_one_div ceiling_def
  binary64_round_def ilog2_def bit_length.simps round_half_even_def Let_def power_int_def
  power_one_over trunc_def c_fmod_def float_rem_def float_floor_div_def

lemma replicate_two_three:
  "replicate 2 x = [x, x]" "replicate 3 x = [x, x, x]"
  by (simp_all add: numeral_2_eq_2 numeral_3_eq_3)

lemmas fmt_eval = hms_def fmt_d_def digits.simps ascii_def str_int_def replicate_two_three

lemma literal_3661_234:
  "binary64_round (3661234 / 1000) = 8051138710017671 / 2199023255552"
  by (simp add: float_eval)

lemma literal_59_999:
  "binary64_round (59999 / 1000) = 8444108563831325 / 140737488355328"
  by (simp add: float_eval)

lemma literal_0_009:
  "binary64_round (9 / 1000) = 5188146770730811 / 576460752303423488"
  by (simp add: float_eval)

lemma format_time_3661_234:
  "format_time (float_literal (3661234 / 1000)) = Inr (ascii ''01:01:01,233'')"
  by (simp add: float_literal_def literal_3661_234 format_time_float_def float_eval fmt_eval)

lemma format_time_59_999:
  "format_time (float_literal (59999 / 1000)) = Inr (ascii ''00:00:59,999'')"
  by (simp add: float_literal_def literal_59_999 format_time_float_def float_eval fmt_eval)

section \<open>UTF-8 decodes what it encodes\<close>








section \<open>The examples of format\_time\<close>

text \<open>
  Claim C5, as the specification states it: \<^verbatim>\<open>format_time(3661.234)\<close> is
  \<^verbatim>\<open>"01:01:01,234"\<close>. The binary64 number nearest to 3661.234 lies below it, its
  fractional part times 1000 is 233.9999999999236 and the truncation gives 233.
\<close>

theorem format_time_3661_234_is_not_234:
  "format_time (float_literal (3661234 / 1000)) \<noteq> Inr (ascii ''01:01:01,234'')"
  using format_time_3661_234 by (simp add: ascii_def)

text \<open>
  Claim C5, amended: \<^verbatim>\<open>format_time(0)\<close> is \<^verbatim>\<open>"00:00:00,000"\<close>,
  \<^verbatim>\<open>format_time(3661.234)\<close> is \<^verbatim>\<open>"01:01:01,233"\<close> and \<^verbatim>\<open>format_time(59.999)\<close> is
  \<^verbatim>\<open>"00:00:59,999"\<close>.
\<close>

theorem format_time_examples:
  "format_time (PInt 0) = Inr (ascii ''00:00:00,000'') \<and>
   format_time (float_literal (3661234 / 1000)) = Inr (ascii ''01:01:01,233'') \<and>
   format_time (float_literal (59999 / 1000)) = Inr (ascii ''00:00:59,999'')"
  using format_time_3661_234 format_time_59_999 by (simp add: format_time_int_def fmt_eval)

section \<open>Paths\<close>

lemma split_sep_no_sep: "47 \<notin> set n \<Longrightarrow> split_sep n = [n]"
  by (induction n) auto

lemma split_sep_ne: "split_sep a \<noteq> []"
  by (induction a) (auto split: list.splits)

lemma split_sep_append: "split_sep (a @ 47 # b) = split_sep a @ split_sep b"
proof (induction a)
  case Nil
  then show ?case by simp
next
  case (Cons c a)
  then show ?case using split_sep_ne [of a] by (auto split: list.splits)
qed

lemma components_append: "components (a @ 47 # b) = components a @ components b"
  by (simp add: components_def split_sep_append)

lemma components_name:
  "47 \<notin> set n \<Longrightarrow> n \<noteq> [] \<Longrightarrow> n \<noteq> [46] \<Longrightarrow> components n = [n]"
  by (simp add: components_def split_sep_no_sep)

lemma components_Nil: "components [] = []"
  by (simp add: components_def)

lemma components_trailing: "components (a @ [47]) = components a"
  using components_append [of a "[]"] by (simp add: components_def)

lemma resolve_join:
  assumes "d \<noteq> []" "47 \<notin> set n" "n \<noteq> []" "n \<noteq> [46]"
  shows "resolve s (path_join d n) = resolve s d @ [n]"
proof (cases "last d = 47")
  case True
  then obtain d' where d: "d = d' @ [47]" using assms(1) by (metis append_butlast_last_id)
  have hn: "hd n \<noteq> 47" using assms(2,3) by (cases n) auto
  have pj: "path_join d n = d' @ 47 # n" using d hn assms by (simp add: path_join_def)
  have hd: "hd (d' @ 47 # n) = hd d" using d by (cases d') auto
  show ?thesis unfolding pj resolve_def hd
    using d assms by (simp add: components_append components_name components_trailing components_Nil)
next
  case False
  have hn: "hd n \<noteq> 47" using assms(2,3) by (cases n) auto
  have pj: "path_join d n = d @ 47 # n" using False hn assms by (simp add: path_join_def)
  have hd: "hd (d @ 47 # n) = hd d" using assms(1) by (cases d) auto
  show ?thesis unfolding pj resolve_def hd
    using assms by (simp add: components_append components_name)
qed

lemma name_facts:
  "47 \<notin> set (ascii ''transcript.txt'')" "ascii ''transcript.txt'' \<noteq> []" "ascii ''transcript.txt'' \<noteq> [46]"
  "47 \<notin> set (ascii ''transcript.json'')" "ascii ''transcript.json'' \<noteq> []" "ascii ''transcript.json'' \<noteq> [46]"
  "47 \<notin> set (ascii ''transcript.srt'')" "ascii ''transcript.srt'' \<noteq> []" "ascii ''transcript.srt'' \<noteq> [46]"
  "ascii ''transcript.txt'' \<noteq> ascii ''transcript.json''"
  "ascii ''transcript.txt'' \<noteq> ascii ''transcript.srt''"
  "ascii ''transcript.json'' \<noteq> ascii ''transcript.srt''"
  by (simp_all add: ascii_def)

lemma resolve_paths:
  assumes "d \<noteq> []"
  shows "resolve s (txt_path d) = resolve s d @ [ascii ''transcript.txt'']"
    "resolve s (json_path d) = resolve s d @ [ascii ''transcript.json'']"
    "resolve s (srt_path d) = resolve s d @ [ascii ''transcript.srt'']"
  using assms by (simp_all add: txt_path_def json_path_def srt_path_def resolve_join name_facts)

section \<open>Directories\<close>

lemma mkdir_chain_frame:
  "mkdir_chain s base cs = (r, s') \<Longrightarrow>
     files s' = files s \<and> cwd s' = cwd s \<and> deny s' = deny s \<and> dirs s \<subseteq> dirs s'"
proof (induction cs arbitrary: s base)
  case Nil
  then show ?case by simp
next
  case (Cons c cs)
  show ?case
  proof (cases "base @ [c] \<in> dirs s")
    case True
    with Cons.prems have "mkdir_chain s (base @ [c]) cs = (r, s')" by simp
    from Cons.IH [OF this] show ?thesis .
  next
    case False
    show ?thesis
    proof (cases "files s (base @ [c]) \<noteq> None \<or> deny s (base @ [c])")
      case True
      with False Cons.prems have "s' = s" by (auto simp: Let_def split: if_splits)
      then show ?thesis by simp
    next
      case blocked: False
      with False Cons.prems
      have "mkdir_chain (s\<lparr>dirs := insert (base @ [c]) (dirs s)\<rparr>) (base @ [c]) cs = (r, s')"
        by (auto simp: Let_def)
      from Cons.IH [OF this] show ?thesis by auto
    qed
  qed
qed

lemma take_Suc_prefix: "base @ take (Suc k) (c # cs) = (base @ [c]) @ take k cs"
  by simp

lemma mkdir_chain_creates:
  "mkdir_chain s base cs = (Inr u, s') \<Longrightarrow> 0 < k \<Longrightarrow> k \<le> length cs \<Longrightarrow>
     base @ take k cs \<in> dirs s'"
proof (induction cs arbitrary: s base k)
  case Nil
  then show ?case by simp
next
  case (Cons c cs)
  obtain j where k: "k = Suc j" using Cons.prems(2) by (cases k) auto
  let ?p = "base @ [c]"
  have step: "\<exists>s1. mkdir_chain s1 ?p cs = (Inr u, s') \<and> ?p \<in> dirs s1"
  proof (cases "?p \<in> dirs s")
    case True
    with Cons.prems(1) show ?thesis by auto
  next
    case False
    with Cons.prems(1) have "mkdir_chain (s\<lparr>dirs := insert ?p (dirs s)\<rparr>) ?p cs = (Inr u, s')"
      by (auto simp: Let_def split: if_splits)
    then show ?thesis by (intro exI [of _ "s\<lparr>dirs := insert ?p (dirs s)\<rparr>"]) simp
  qed
  then obtain s1 where s1: "mkdir_chain s1 ?p cs = (Inr u, s')" "?p \<in> dirs s1" by blast
  show ?case
  proof (cases j)
    case 0
    with k s1 mkdir_chain_frame [OF s1(1)] show ?thesis by auto
  next
    case (Suc i)
    with k Cons.prems(3) have "0 < j" "j \<le> length cs" by auto
    from Cons.IH [OF s1(1) this] show ?thesis using k by simp
  qed
qed

lemma mkdir_chain_present:
  "(\<And>k. 0 < k \<Longrightarrow> k \<le> length cs \<Longrightarrow> base @ take k cs \<in> dirs s) \<Longrightarrow>
     mkdir_chain s base cs = (Inr (), s)"
proof (induction cs arbitrary: base)
  case Nil
  then show ?case by simp
next
  case (Cons c cs)
  have here: "base @ [c] \<in> dirs s" using Cons.prems [of 1] by simp
  have "mkdir_chain s (base @ [c]) cs = (Inr (), s)"
  proof (rule Cons.IH)
    fix k assume "0 < k" "k \<le> length cs"
    then show "(base @ [c]) @ take k cs \<in> dirs s" using Cons.prems [of "Suc k"] by simp
  qed
  with here show ?case by simp
qed

lemma mkdir_chain_free:
  "(\<And>k. 0 < k \<Longrightarrow> k \<le> length cs \<Longrightarrow>
       files s (base @ take k cs) = None \<and> \<not> deny s (base @ take k cs)) \<Longrightarrow>
     fst (mkdir_chain s base cs) = Inr ()"
proof (induction cs arbitrary: s base)
  case Nil
  then show ?case by simp
next
  case (Cons c cs)
  have here: "files s (base @ [c]) = None" "\<not> deny s (base @ [c])"
    using Cons.prems [of 1] by simp_all
  have rest: "fst (mkdir_chain t (base @ [c]) cs) = Inr ()"
    if "files t = files s" "deny t = deny s" for t
  proof (rule Cons.IH)
    fix k assume "0 < k" "k \<le> length cs"
    then show "files t ((base @ [c]) @ take k cs) = None \<and> \<not> deny t ((base @ [c]) @ take k cs)"
      using Cons.prems [of "Suc k"] that by simp
  qed
  show ?case using here rest [of s] rest [of "s\<lparr>dirs := insert (base @ [c]) (dirs s)\<rparr>"]
    by (simp add: Let_def)
qed


section \<open>The steps of the export\<close>

lemma resolve_cwd: "cwd s' = cwd s \<Longrightarrow> resolve s' p = resolve s p"
  by (simp add: resolve_def)

lemma levels_cwd: "cwd s' = cwd s \<Longrightarrow> levels s' d = levels s d"
  by (simp add: levels_def)

lemma in_levels:
  "p \<in> set (levels s d) \<longleftrightarrow>
     (\<exists>k. 0 < k \<and> k \<le> length (components d) \<and>
        p = (if hd d = 47 then [] else cwd s) @ take k (components d))"
  by (auto simp: levels_def Suc_le_eq less_Suc_eq_le)

lemma resolve_nonempty: "d \<noteq> [] \<Longrightarrow> resolve s d = (if hd d = 47 then [] else cwd s) @ components d"
  by (simp add: resolve_def)

lemma makedirs_frame:
  "makedirs s d = (r, s') \<Longrightarrow>
     files s' = files s \<and> cwd s' = cwd s \<and> deny s' = deny s \<and> dirs s \<subseteq> dirs s'"
  using mkdir_chain_frame by (auto simp: makedirs_def split: if_splits)

lemma makedirs_nonempty: "makedirs s d = (Inr u, s') \<Longrightarrow> d \<noteq> []"
  by (auto simp: makedirs_def split: if_splits)

lemma makedirs_chain:
  "d \<noteq> [] \<Longrightarrow> makedirs s d = mkdir_chain s (if hd d = 47 then [] else cwd s) (components d)"
  by (simp add: makedirs_def)

lemma makedirs_levels:
  assumes "makedirs s d = (Inr u, s')"
  shows "set (levels s d) \<subseteq> dirs s'"
proof
  fix p assume "p \<in> set (levels s d)"
  then obtain k where k: "0 < k" "k \<le> length (components d)"
    and p: "p = (if hd d = 47 then [] else cwd s) @ take k (components d)"
    unfolding in_levels by blast
  from assms have "mkdir_chain s (if hd d = 47 then [] else cwd s) (components d) = (Inr u, s')"
    using makedirs_chain makedirs_nonempty by metis
  from mkdir_chain_creates [OF this k] show "p \<in> dirs s'" unfolding p .
qed

lemma makedirs_present:
  "d \<noteq> [] \<Longrightarrow> set (levels s d) \<subseteq> dirs s \<Longrightarrow> makedirs s d = (Inr (), s)"
proof -
  assume d: "d \<noteq> []" and l: "set (levels s d) \<subseteq> dirs s"
  have "mkdir_chain s (if hd d = 47 then [] else cwd s) (components d) = (Inr (), s)"
  proof (rule mkdir_chain_present)
    fix k assume "0 < k" "k \<le> length (components d)"
    then have "(if hd d = 47 then [] else cwd s) @ take k (components d) \<in> set (levels s d)"
      unfolding in_levels by blast
    with l show "(if hd d = 47 then [] else cwd s) @ take k (components d) \<in> dirs s" by blast
  qed
  with d show ?thesis by (simp add: makedirs_chain)
qed

lemma makedirs_free:
  assumes "d \<noteq> []" "\<And>p. p \<in> set (levels s d) \<Longrightarrow> files s p = None \<and> \<not> deny s p"
  shows "fst (makedirs s d) = Inr ()"
proof -
  have "fst (mkdir_chain s (if hd d = 47 then [] else cwd s) (components d)) = Inr ()"
  proof (rule mkdir_chain_free)
    fix k assume "0 < k" "k \<le> length (components d)"
    then have "(if hd d = 47 then [] else cwd s) @ take k (components d) \<in> set (levels s d)"
      unfolding in_levels by blast
    from assms(2) [OF this]
    show "files s ((if hd d = 47 then [] else cwd s) @ take k (components d)) = None \<and>
          \<not> deny s ((if hd d = 47 then [] else cwd s) @ take k (components d))" .
  qed
  with assms(1) show ?thesis by (simp add: makedirs_chain)
qed





lemma open_w_ok:
  "open_w s path = Inr s1 \<Longrightarrow>
     s1 = s\<lparr>files := (files s)(resolve s path \<mapsto> Whole [])\<rparr> \<and> resolve s path \<notin> dirs s \<and>
     files s (butlast (resolve s path)) = None \<and> butlast (resolve s path) \<in> dirs s \<and>
     \<not> deny s (resolve s path)"
  by (auto simp: open_w_def Let_def split: if_splits)

lemma open_w_iff:
  "(\<exists>s1. open_w s path = Inr s1) \<longleftrightarrow>
     resolve s path \<notin> dirs s \<and> files s (butlast (resolve s path)) = None \<and>
     butlast (resolve s path) \<in> dirs s \<and> \<not> deny s (resolve s path)"
  by (auto simp: open_w_def Let_def split: if_splits)

lemma with_open_w_open_fails: "open_w s path = Inl e \<Longrightarrow> with_open_w s path body = (Inl e, s)"
  by (simp add: with_open_w_def)

lemma with_open_w_frame:
  "with_open_w s path body = (r, s') \<Longrightarrow>
     dirs s' = dirs s \<and> cwd s' = cwd s \<and> deny s' = deny s \<and>
     (\<forall>q. q \<noteq> resolve s path \<longrightarrow> files s' q = files s q)"
  by (auto simp: with_open_w_def Let_def dest!: open_w_ok split: sum.splits)

lemma with_open_w_ok:
  "with_open_w s path body = (Inr u, s') \<Longrightarrow>
     \<exists>text bs. body = Inr text \<and> utf8_encode text = Inr bs \<and>
       files s' (resolve s path) = Some (Whole bs) \<and> (\<exists>s1. open_w s path = Inr s1)"
  by (auto simp: with_open_w_def Let_def dest!: open_w_ok split: sum.splits)

lemma with_open_w_success:
  assumes "\<exists>s1. open_w s path = Inr s1" "body = Inr text" "utf8_encode text = Inr bs"
  shows "with_open_w s path body = (Inr (), s\<lparr>files := (files s)(resolve s path \<mapsto> Whole bs)\<rparr>)"
proof -
  from assms(1) obtain s1 where o: "open_w s path = Inr s1" by blast
  from open_w_ok [OF o] have "s1 = s\<lparr>files := (files s)(resolve s path \<mapsto> Whole [])\<rparr>" by simp
  with o assms(2,3) show ?thesis by (simp add: with_open_w_def)
qed

lemma save_transcript_success:
  assumes "save_transcript f r d s = (Inr ps, s')"
  obtains s0 s1 s2 where
    "makedirs s d = (Inr (), s0)"
    "with_open_w s0 (txt_path d) (txt_body r) = (Inr (), s1)"
    "with_open_w s1 (json_path d) (Inr (iterencode f 0 r)) = (Inr (), s2)"
    "with_open_w s2 (srt_path d) (srt_body r) = (Inr (), s')"
    "ps = (txt_path d, json_path d, srt_path d)"
  using assms by (auto simp: save_transcript_def split: prod.splits sum.splits)


lemma file_paths_distinct:
  assumes "d \<noteq> []"
  shows "resolve s (txt_path d) \<noteq> resolve s (json_path d)"
    "resolve s (txt_path d) \<noteq> resolve s (srt_path d)"
    "resolve s (json_path d) \<noteq> resolve s (srt_path d)"
    "resolve s (txt_path d) \<noteq> resolve s d"
    "resolve s (json_path d) \<noteq> resolve s d"
    "resolve s (srt_path d) \<noteq> resolve s d"
    "butlast (resolve s (txt_path d)) = resolve s d"
    "butlast (resolve s (json_path d)) = resolve s d"
    "butlast (resolve s (srt_path d)) = resolve s d"
  using assms by (simp_all add: resolve_paths name_facts)

lemma resolve_update [simp]:
  "resolve (s\<lparr>files := x\<rparr>) p = resolve s p" "resolve (s\<lparr>dirs := y\<rparr>) p = resolve s p"
  by (simp_all add: resolve_def)

text \<open>The state a successful call leaves.\<close>

lemma success_state:
  assumes "save_transcript f r d s = (Inr ps, s')"
  obtains s0 t x b1 b2 b3 where
    "makedirs s d = (Inr (), s0)" "d \<noteq> []"
    "txt_body r = Inr t" "utf8_encode t = Inr b1"
    "utf8_encode (iterencode f 0 r) = Inr b2"
    "srt_body r = Inr x" "utf8_encode x = Inr b3"
    "\<exists>s1. open_w s0 (txt_path d) = Inr s1"
    "\<not> deny s (resolve s (json_path d))" "\<not> deny s (resolve s (srt_path d))"
    "resolve s (json_path d) \<notin> dirs s0" "resolve s (srt_path d) \<notin> dirs s0"
    "s' = s0\<lparr>files := (files s)(resolve s (txt_path d) \<mapsto> Whole b1,
                              resolve s (json_path d) \<mapsto> Whole b2,
                              resolve s (srt_path d) \<mapsto> Whole b3)\<rparr>"
    "ps = (txt_path d, json_path d, srt_path d)"
proof -
  from assms obtain s0 s1 s2 where
    m: "makedirs s d = (Inr (), s0)" and
    w1: "with_open_w s0 (txt_path d) (txt_body r) = (Inr (), s1)" and
    w2: "with_open_w s1 (json_path d) (Inr (iterencode f 0 r)) = (Inr (), s2)" and
    w3: "with_open_w s2 (srt_path d) (srt_body r) = (Inr (), s')" and
    ps: "ps = (txt_path d, json_path d, srt_path d)"
    by (rule save_transcript_success)
  have d: "d \<noteq> []" using m by (rule makedirs_nonempty)
  from makedirs_frame [OF m] have f0: "files s0 = files s" "cwd s0 = cwd s" "deny s0 = deny s"
    by simp_all
  have r0: "resolve s0 p = resolve s p" for p using f0 by (simp add: resolve_def)
  from with_open_w_ok [OF w1] obtain t b1 where
    t: "txt_body r = Inr t" "utf8_encode t = Inr b1" and o1: "\<exists>s1. open_w s0 (txt_path d) = Inr s1"
    by blast
  from with_open_w_success [OF o1 t] w1
  have s1: "s1 = s0\<lparr>files := (files s)(resolve s (txt_path d) \<mapsto> Whole b1)\<rparr>"
    by (simp add: r0 f0)
  have r1: "resolve s1 p = resolve s p" for p using s1 f0 by (simp add: resolve_def)
  from with_open_w_ok [OF w2] obtain b2 where
    j: "utf8_encode (iterencode f 0 r) = Inr b2" and o2: "\<exists>s. open_w s1 (json_path d) = Inr s"
    by blast
  from with_open_w_success [OF o2 refl j] w2
  have s2: "s2 = s0\<lparr>files := (files s)(resolve s (txt_path d) \<mapsto> Whole b1,
                                         resolve s (json_path d) \<mapsto> Whole b2)\<rparr>"
    by (simp add: s1 r0)
  have r2: "resolve s2 p = resolve s p" for p using s2 f0 by (simp add: resolve_def)
  from with_open_w_ok [OF w3] obtain x b3 where
    x: "srt_body r = Inr x" "utf8_encode x = Inr b3" and o3: "\<exists>s. open_w s2 (srt_path d) = Inr s"
    by blast
  from with_open_w_success [OF o3 x] w3
  have s3: "s' = s0\<lparr>files := (files s)(resolve s (txt_path d) \<mapsto> Whole b1,
                                         resolve s (json_path d) \<mapsto> Whole b2,
                                         resolve s (srt_path d) \<mapsto> Whole b3)\<rparr>"
    by (simp add: s2 r0)
  from o2 have "\<not> deny s (resolve s (json_path d))" "resolve s (json_path d) \<notin> dirs s0"
    unfolding open_w_iff by (simp_all add: s1 f0 r0)
  moreover from o3 have "\<not> deny s (resolve s (srt_path d))" "resolve s (srt_path d) \<notin> dirs s0"
    unfolding open_w_iff by (simp_all add: s2 f0 r0)
  ultimately show ?thesis using that [OF m d t j x o1 _ _ _ _ s3 ps] by blast
qed

lemma mkdir_chain_dirs:
  "mkdir_chain s base cs = (r, s') \<Longrightarrow> p \<in> dirs s' \<Longrightarrow>
     p \<in> dirs s \<or> (\<exists>k. 0 < k \<and> k \<le> length cs \<and> p = base @ take k cs)"
proof (induction cs arbitrary: s base)
  case Nil
  then show ?case by simp
next
  case (Cons c cs)
  let ?p = "base @ [c]"
  have lift: "p \<in> dirs s1 \<or> (\<exists>k. 0 < k \<and> k \<le> length (c # cs) \<and> p = base @ take k (c # cs))"
    if "mkdir_chain s1 ?p cs = (r, s')" for s1
  proof -
    from Cons.IH [OF that Cons.prems(2)] show ?thesis
    proof
      assume "p \<in> dirs s1" then show ?thesis ..
    next
      assume "\<exists>k. 0 < k \<and> k \<le> length cs \<and> p = ?p @ take k cs"
      then obtain k where "0 < k" "k \<le> length cs" "p = ?p @ take k cs" by blast
      then have "0 < Suc k \<and> Suc k \<le> length (c # cs) \<and> p = base @ take (Suc k) (c # cs)" by simp
      then show ?thesis by blast
    qed
  qed
  show ?case
  proof (cases "?p \<in> dirs s")
    case True
    with Cons.prems(1) lift [of s] show ?thesis by simp
  next
    case False
    show ?thesis
    proof (cases "files s ?p \<noteq> None \<or> deny s ?p")
      case True
      with False Cons.prems have "s' = s" by (auto simp: Let_def split: if_splits)
      with Cons.prems(2) show ?thesis by simp
    next
      case blocked: False
      with False Cons.prems(1)
      have "mkdir_chain (s\<lparr>dirs := insert ?p (dirs s)\<rparr>) ?p cs = (r, s')" by (auto simp: Let_def)
      from lift [OF this] show ?thesis
      proof
        assume "p \<in> dirs (s\<lparr>dirs := insert ?p (dirs s)\<rparr>)"
        then have "p = ?p \<or> p \<in> dirs s" by simp
        then show ?thesis
        proof
          assume "p = ?p"
          then have "0 < (1::nat) \<and> 1 \<le> length (c # cs) \<and> p = base @ take 1 (c # cs)" by simp
          then show ?thesis by blast
        qed simp
      qed simp
    qed
  qed
qed

lemma makedirs_dirs:
  assumes "makedirs s d = (r, s')" "p \<in> dirs s'"
  shows "p \<in> dirs s \<or> p \<in> set (levels s d)"
proof (cases "d = []")
  case True
  with assms show ?thesis by (simp add: makedirs_def)
next
  case False
  with assms(1) have "mkdir_chain s (if hd d = 47 then [] else cwd s) (components d) = (r, s')"
    by (simp add: makedirs_chain)
  from mkdir_chain_dirs [OF this assms(2)] show ?thesis unfolding in_levels by blast
qed

lemma level_shorter:
  "p \<in> set (levels s d) \<Longrightarrow> d \<noteq> [] \<Longrightarrow> length p \<le> length (resolve s d)"
  by (auto simp: in_levels resolve_def)

lemma resolve_is_level:
  "d \<noteq> [] \<Longrightarrow> components d \<noteq> [] \<Longrightarrow> resolve s d \<in> set (levels s d)"
  unfolding in_levels resolve_def
  by (intro exI [of _ "length (components d)"]) simp

lemma utf8_encode_ascii: "(\<forall>c \<in> set s. c < 128) \<Longrightarrow> utf8_encode s = Inr s"
  by (induction s) (auto simp: utf8_char_def)

text \<open>When the export goes through: a sufficient condition on the input and on the disk.\<close>

lemma save_transcript_succeeds:
  assumes d: "d \<noteq> []" "components d \<noteq> []"
    and lv: "\<And>p. p \<in> set (levels s d) \<Longrightarrow> files s p = None \<and> \<not> deny s p"
    and t: "txt_body r = Inr t" "utf8_encode t = Inr b1"
    and j: "utf8_encode (iterencode f 0 r) = Inr b2"
    and x: "srt_body r = Inr x" "utf8_encode x = Inr b3"
    and tp: "resolve s (txt_path d) \<notin> dirs s" "\<not> deny s (resolve s (txt_path d))"
    and jp: "resolve s (json_path d) \<notin> dirs s" "\<not> deny s (resolve s (json_path d))"
    and sp: "resolve s (srt_path d) \<notin> dirs s" "\<not> deny s (resolve s (srt_path d))"
  shows "fst (save_transcript f r d s) = Inr (txt_path d, json_path d, srt_path d)"
proof -
  obtain s0 where m: "makedirs s d = (Inr (), s0)"
    using makedirs_free [OF d(1) lv] by (metis prod.collapse old.unit.exhaust)
  from makedirs_frame [OF m] have f0: "files s0 = files s" "cwd s0 = cwd s" "deny s0 = deny s"
    by simp_all
  have r0: "resolve s0 p = resolve s p" for p using f0 by (simp add: resolve_def)
  have D: "resolve s d \<in> dirs s0" "files s (resolve s d) = None"
    using makedirs_levels [OF m] resolve_is_level [OF d] lv by auto
  have fresh: "resolve s d @ [n] \<notin> dirs s0" if "resolve s d @ [n] \<notin> dirs s" for n
  proof
    assume "resolve s d @ [n] \<in> dirs s0"
    from makedirs_dirs [OF m this] that have "resolve s d @ [n] \<in> set (levels s d)" by simp
    from level_shorter [OF this d(1)] show False by simp
  qed
  note P = resolve_paths [OF d(1), of s] file_paths_distinct [OF d(1), of s]
  have o1: "\<exists>s1. open_w s0 (txt_path d) = Inr s1"
    unfolding open_w_iff r0 using tp D fresh by (simp add: P f0)
  define s1 where "s1 = s0\<lparr>files := (files s0)(resolve s0 (txt_path d) \<mapsto> Whole b1)\<rparr>"
  have w1: "with_open_w s0 (txt_path d) (txt_body r) = (Inr (), s1)"
    unfolding s1_def by (rule with_open_w_success [OF o1 t])
  have o2: "\<exists>s2. open_w s1 (json_path d) = Inr s2"
    unfolding open_w_iff using jp D fresh by (simp add: s1_def r0 P f0)
  define s2 where "s2 = s1\<lparr>files := (files s1)(resolve s1 (json_path d) \<mapsto> Whole b2)\<rparr>"
  have w2: "with_open_w s1 (json_path d) (Inr (iterencode f 0 r)) = (Inr (), s2)"
    unfolding s2_def by (rule with_open_w_success [OF o2 refl j])
  have o3: "\<exists>s3. open_w s2 (srt_path d) = Inr s3"
    unfolding open_w_iff using sp D fresh by (simp add: s2_def s1_def r0 P f0)
  define s3 where "s3 = s2\<lparr>files := (files s2)(resolve s2 (srt_path d) \<mapsto> Whole b3)\<rparr>"
  have w3: "with_open_w s2 (srt_path d) (srt_body r) = (Inr (), s3)"
    unfolding s3_def by (rule with_open_w_success [OF o3 x])
  show ?thesis by (simp add: save_transcript_def m w1 w2 w3)
qed

section \<open>A run on an empty disk\<close>

lemma demo_components: "components demo_dir = [ascii ''out'', ascii ''run1'']"
  by (simp add: demo_dir_def components_def ascii_def)


lemma demo_resolve: "resolve demo_fs demo_dir = [ascii ''home'', ascii ''out'', ascii ''run1'']"
  by (simp add: resolve_def demo_components demo_fs_def) (simp add: demo_dir_def ascii_def)

lemma literal_5: "binary64_round 5 = 5"
  by (simp add: float_eval)

lemma literal_7_5: "binary64_round (15 / 2) = 15 / 2"
  by (simp add: float_eval)

lemma format_time_5: "format_time (float_literal 5) = Inr (ascii ''00:00:05,000'')"
  by (simp add: float_literal_def literal_5 format_time_float_def float_eval fmt_eval)

lemma format_time_7_5: "format_time (float_literal (15 / 2)) = Inr (ascii ''00:00:07,500'')"
  by (simp add: float_literal_def literal_7_5 format_time_float_def float_eval fmt_eval)

lemma strip_hello: "strip (ascii '' hello '') = ascii ''hello''"
  by (simp add: strip_def is_space_def ascii_def)

lemma demo_txt_body: "txt_body demo_result = Inr (ascii '' hello'')"
  by (simp add: txt_body_def demo_result_def ascii_def)

lemma demo_block:
  "srt_block i demo_segment =
     Inr (str_int (int i) @ [10] @ ascii ''00:00:05,000 --> 00:00:07,500'' @ [10] @ ascii ''hello'' @ [10, 10])"
proof -
  have g: "getitem demo_segment (ascii ''start'') = Inr (float_literal 5)"
    "getitem demo_segment (ascii ''end'') = Inr (float_literal (15 / 2))"
    "getitem demo_segment (ascii ''text'') = Inr (PStr (ascii '' hello ''))"
    by (simp_all add: demo_segment_def ascii_def)
  show ?thesis
    by (simp add: srt_block_def g format_time_5 format_time_7_5 strip_method_def strip_hello)
      (simp add: ascii_def)
qed

lemma demo_srt_body: "srt_body demo_result = Inr demo_srt"
proof -
  have "segments_of demo_result = Inr [demo_segment]"
    by (simp add: segments_of_def demo_result_def ascii_def)
  then show ?thesis
    by (simp add: srt_body_def demo_block demo_srt_def) (simp add: fmt_eval)
qed

lemma demo_iterencode: "iterencode demo_frepr 0 demo_result = demo_json"
  by (simp add: demo_result_def demo_segment_def demo_json_def float_literal_def literal_5 literal_7_5
      floatstr_def demo_frepr_def encode_basestring_def json_escape_char_def newline_indent_def
      ascii_def numeral_2_eq_2)

lemma demo_dir_ne: "demo_dir \<noteq> []" "hd demo_dir \<noteq> 47"
  by (simp_all add: demo_dir_def ascii_def)

lemma demo_makedirs:
  "makedirs demo_fs demo_dir =
     (Inr (), demo_fs\<lparr>dirs := {[], [ascii ''home''], [ascii ''home'', ascii ''out''],
                                 [ascii ''home'', ascii ''out'', ascii ''run1'']}\<rparr>)"
  by (simp add: makedirs_def demo_dir_ne demo_components)
     (auto simp: demo_fs_def ascii_def Let_def)

lemma demo_paths:
  "resolve demo_fs (txt_path demo_dir) = [ascii ''home'', ascii ''out'', ascii ''run1'', ascii ''transcript.txt'']"
  "resolve demo_fs (json_path demo_dir) = [ascii ''home'', ascii ''out'', ascii ''run1'', ascii ''transcript.json'']"
  "resolve demo_fs (srt_path demo_dir) = [ascii ''home'', ascii ''out'', ascii ''run1'', ascii ''transcript.srt'']"
  by (simp_all add: resolve_paths demo_dir_ne demo_resolve)

lemma demo_ascii:
  "utf8_encode (ascii '' hello'') = Inr (ascii '' hello'')"
  "utf8_encode demo_json = Inr demo_json"
  "utf8_encode demo_srt = Inr demo_srt"
  by (rule utf8_encode_ascii, simp add: ascii_def demo_json_def demo_srt_def)+

lemma demo_success:
  "fst (save_transcript demo_frepr demo_result demo_dir demo_fs) =
     Inr (txt_path demo_dir, json_path demo_dir, srt_path demo_dir)"
proof (rule save_transcript_succeeds [OF demo_dir_ne(1) _ _ demo_txt_body demo_ascii(1) _ demo_srt_body demo_ascii(3)])
  show "components demo_dir \<noteq> []" by (simp add: demo_components)
  show "utf8_encode (iterencode demo_frepr 0 demo_result) = Inr demo_json"
    by (simp add: demo_iterencode demo_ascii)
  show "files demo_fs p = None \<and> \<not> deny demo_fs p" for p by (simp add: demo_fs_def)
  show "resolve demo_fs (txt_path demo_dir) \<notin> dirs demo_fs" "\<not> deny demo_fs (resolve demo_fs (txt_path demo_dir))"
    "resolve demo_fs (json_path demo_dir) \<notin> dirs demo_fs" "\<not> deny demo_fs (resolve demo_fs (json_path demo_dir))"
    "resolve demo_fs (srt_path demo_dir) \<notin> dirs demo_fs" "\<not> deny demo_fs (resolve demo_fs (srt_path demo_dir))"
    unfolding demo_paths by (simp_all add: demo_fs_def)
qed

section \<open>The plain text file\<close>

lemma demo_run:
  "save_transcript demo_frepr demo_result demo_dir demo_fs =
     (Inr (txt_path demo_dir, json_path demo_dir, srt_path demo_dir),
      snd (save_transcript demo_frepr demo_result demo_dir demo_fs))"
  using demo_success by (metis prod.collapse)



section \<open>The directory comes first\<close>








section \<open>Exporting twice\<close>

lemma resolve_deny_update [simp]: "resolve (s\<lparr>deny := z\<rparr>) p = resolve s p"
  by (simp add: resolve_def)

lemma fs_files_same: "files s p = Some v \<Longrightarrow> s\<lparr>files := (files s)(p \<mapsto> v)\<rparr> = s"
  by (simp add: fun_upd_idem)

lemma rewrite_same:
  assumes "\<exists>s1. open_w s p = Inr s1" "body = Inr text" "utf8_encode text = Inr bs"
    "files s (resolve s p) = Some (Whole bs)"
  shows "with_open_w s p body = (Inr (), s)"
  using with_open_w_success [OF assms(1-3)] fs_files_same [OF assms(4)] by simp

text \<open>
  Claim C9: exporting the same result to the same directory again succeeds and leaves
  every file as the first export wrote it; and whatever the disk held before, two
  successful exports of one result leave the same bytes in the three files.
\<close>

theorem export_idempotent:
  assumes "save_transcript f r d s = (Inr ps, s')"
    and "save_transcript f r d t = (Inr qs, t')"
  shows "save_transcript f r d s' = (Inr ps, s') \<and> qs = ps \<and>
     files t' (resolve t (txt_path d)) = files s' (resolve s (txt_path d)) \<and>
     files t' (resolve t (json_path d)) = files s' (resolve s (json_path d)) \<and>
     files t' (resolve t (srt_path d)) = files s' (resolve s (srt_path d))"
proof -
  from assms(1) obtain s0 tx x b1 b2 b3 where
    m: "makedirs s d = (Inr (), s0)" and d: "d \<noteq> []" and
    tx: "txt_body r = Inr tx" "utf8_encode tx = Inr b1" and
    j: "utf8_encode (iterencode f 0 r) = Inr b2" and
    x: "srt_body r = Inr x" "utf8_encode x = Inr b3" and
    o1: "\<exists>s1. open_w s0 (txt_path d) = Inr s1" and
    dj: "\<not> deny s (resolve s (json_path d))" and ds: "\<not> deny s (resolve s (srt_path d))" and
    nj: "resolve s (json_path d) \<notin> dirs s0" and ns: "resolve s (srt_path d) \<notin> dirs s0" and
    s': "s' = s0\<lparr>files := (files s)(resolve s (txt_path d) \<mapsto> Whole b1,
                              resolve s (json_path d) \<mapsto> Whole b2,
                              resolve s (srt_path d) \<mapsto> Whole b3)\<rparr>" and
    ps: "ps = (txt_path d, json_path d, srt_path d)"
    by (rule success_state)
  from assms(2) obtain t0 tx' x' c1 c2 c3 where
    tx': "txt_body r = Inr tx'" "utf8_encode tx' = Inr c1" and
    j': "utf8_encode (iterencode f 0 r) = Inr c2" and
    x': "srt_body r = Inr x'" "utf8_encode x' = Inr c3" and
    t': "t' = t0\<lparr>files := (files t)(resolve t (txt_path d) \<mapsto> Whole c1,
                              resolve t (json_path d) \<mapsto> Whole c2,
                              resolve t (srt_path d) \<mapsto> Whole c3)\<rparr>" and
    qs: "qs = (txt_path d, json_path d, srt_path d)"
    by (rule success_state)
  have same: "c1 = b1" "c2 = b2" "c3 = b3" using tx tx' j j' x x' by simp_all
  note P = file_paths_distinct [OF d]
  have contents:
    "files t' (resolve t (txt_path d)) = files s' (resolve s (txt_path d))"
    "files t' (resolve t (json_path d)) = files s' (resolve s (json_path d))"
    "files t' (resolve t (srt_path d)) = files s' (resolve s (srt_path d))"
    using P [of s] P [of t] by (simp_all add: s' t' same)
  from makedirs_frame [OF m] have f0: "files s0 = files s" "cwd s0 = cwd s" "deny s0 = deny s"
    by simp_all
  have r0: "resolve s0 p = resolve s p" for p using f0 by (simp add: resolve_def)
  have rs: "resolve s' p = resolve s p" for p by (simp add: s' r0)
  have lv: "levels s' d = levels s d" using f0 by (simp add: levels_def s')
  have "set (levels s' d) \<subseteq> dirs s'" using makedirs_levels [OF m] by (simp add: lv) (simp add: s')
  then have m2: "makedirs s' d = (Inr (), s')" using d by (intro makedirs_present)
  from o1 have o: "resolve s (txt_path d) \<notin> dirs s0" "files s (resolve s d) = None"
    "resolve s d \<in> dirs s0" "\<not> deny s (resolve s (txt_path d))"
    unfolding open_w_iff by (simp_all add: r0 f0 P)
  have fD: "files s' (resolve s d) = None" using P [of s] o(2) by (simp add: s')
  have op: "\<exists>s1. open_w s' p = Inr s1"
    if "resolve s p \<notin> dirs s0" "butlast (resolve s p) = resolve s d" "\<not> deny s (resolve s p)" for p
    unfolding open_w_iff rs using that fD o(3) by (simp add: s' f0)
  have w1: "with_open_w s' (txt_path d) (txt_body r) = (Inr (), s')"
    by (rule rewrite_same [OF op [OF o(1) P(7) o(4)] tx]) (use P [of s] in \<open>simp add: s' r0\<close>)
  have w2: "with_open_w s' (json_path d) (Inr (iterencode f 0 r)) = (Inr (), s')"
    by (rule rewrite_same [OF op [OF nj P(8) dj] refl j]) (use P [of s] in \<open>simp add: s' r0\<close>)
  have w3: "with_open_w s' (srt_path d) (srt_body r) = (Inr (), s')"
    by (rule rewrite_same [OF op [OF ns P(9) ds] x]) (use P [of s] in \<open>simp add: s' r0\<close>)
  have "save_transcript f r d s' = (Inr ps, s')"
    by (simp add: save_transcript_def m2 w1 w2 w3 ps)
  with contents ps qs show ?thesis by simp
qed

theorem export_idempotent_witness:
  "save_transcript demo_frepr demo_result demo_dir
     (snd (save_transcript demo_frepr demo_result demo_dir demo_fs)) =
     save_transcript demo_frepr demo_result demo_dir demo_fs \<and>
   fst (save_transcript demo_frepr demo_result demo_dir demo_fs) =
     Inr (txt_path demo_dir, json_path demo_dir, srt_path demo_dir)"
proof -
  have "save_transcript demo_frepr demo_result demo_dir
     (snd (save_transcript demo_frepr demo_result demo_dir demo_fs)) =
     (Inr (txt_path demo_dir, json_path demo_dir, srt_path demo_dir),
      snd (save_transcript demo_frepr demo_result demo_dir demo_fs))"
    using export_idempotent [OF demo_run demo_run] by blast
  with demo_run have "save_transcript demo_frepr demo_result demo_dir
     (snd (save_transcript demo_frepr demo_result demo_dir demo_fs)) =
     save_transcript demo_frepr demo_result demo_dir demo_fs" by (metis (no_types))
  with demo_success show ?thesis by blast
qed

section \<open>A failure in the middle\<close>

lemma locked_resolve: "resolve demo_locked p = resolve demo_fs p"
  by (simp add: demo_locked_def)

lemma locked_makedirs: "makedirs demo_locked demo_dir = (Inr (), demo_made)"
  by (simp add: makedirs_def demo_dir_ne demo_components demo_made_def)
     (auto simp: demo_locked_def demo_fs_def ascii_def Let_def)

lemma locked_txt:
  "with_open_w demo_made (txt_path demo_dir) (txt_body demo_result) = (Inr (), demo_partial)"
proof -
  have r: "resolve demo_made p = resolve demo_fs p" for p
    by (simp add: demo_made_def demo_locked_def)
  have "\<exists>s1. open_w demo_made (txt_path demo_dir) = Inr s1"
    unfolding open_w_iff r demo_paths
    by (simp add: demo_made_def demo_locked_def demo_fs_def) (simp add: ascii_def)
  from with_open_w_success [OF this demo_txt_body demo_ascii(1)]
  have "with_open_w demo_made (txt_path demo_dir) (txt_body demo_result) =
     (Inr (), demo_made\<lparr>files := (files demo_made)
        ([ascii ''home'', ascii ''out'', ascii ''run1'', ascii ''transcript.txt'']
           \<mapsto> Whole (ascii '' hello''))\<rparr>)"
    unfolding r demo_paths .
  moreover have "files demo_made = Map.empty"
    by (simp add: demo_made_def demo_locked_def demo_fs_def)
  ultimately show ?thesis by (simp add: demo_partial_def)
qed

lemma locked_json:
  "open_w demo_partial (json_path demo_dir) =
     Inl (OSError EACCES [ascii ''home'', ascii ''out'', ascii ''run1'', ascii ''transcript.json''])"
proof -
  have r: "resolve demo_partial p = resolve demo_fs p" for p
    by (simp add: demo_partial_def demo_made_def demo_locked_def)
  show ?thesis
    unfolding open_w_def r demo_paths Let_def
    by (simp add: demo_partial_def demo_made_def demo_locked_def demo_fs_def)
qed


text \<open>
  Claim C10: the files are written in the order \<^verbatim>\<open>transcript.txt\<close>, \<^verbatim>\<open>transcript.json\<close>,
  \<^verbatim>\<open>transcript.srt\<close>. When the writing of one of them fails, the call fails with that
  error, the files before it hold their complete contents, and the files after it are as
  they were before the call.
\<close>

theorem writes_in_order:
  "(makedirs s d = (Inr (), s0) \<and> with_open_w s0 (txt_path d) (txt_body r) = (Inl e, s1) \<longrightarrow>
      save_transcript f r d s = (Inl e, s1) \<and>
      files s1 (resolve s (json_path d)) = files s (resolve s (json_path d)) \<and>
      files s1 (resolve s (srt_path d)) = files s (resolve s (srt_path d))) \<and>
   (makedirs s d = (Inr (), s0) \<and> with_open_w s0 (txt_path d) (txt_body r) = (Inr (), s1) \<and>
    with_open_w s1 (json_path d) (Inr (iterencode f 0 r)) = (Inl e, s2) \<longrightarrow>
      save_transcript f r d s = (Inl e, s2) \<and>
      (\<exists>t b. txt_body r = Inr t \<and> utf8_encode t = Inr b \<and>
             files s2 (resolve s (txt_path d)) = Some (Whole b)) \<and>
      files s2 (resolve s (srt_path d)) = files s (resolve s (srt_path d))) \<and>
   (makedirs s d = (Inr (), s0) \<and> with_open_w s0 (txt_path d) (txt_body r) = (Inr (), s1) \<and>
    with_open_w s1 (json_path d) (Inr (iterencode f 0 r)) = (Inr (), s2) \<and>
    with_open_w s2 (srt_path d) (srt_body r) = (Inl e, s3) \<longrightarrow>
      save_transcript f r d s = (Inl e, s3) \<and>
      (\<exists>t b. txt_body r = Inr t \<and> utf8_encode t = Inr b \<and>
             files s3 (resolve s (txt_path d)) = Some (Whole b)) \<and>
      (\<exists>b. utf8_encode (iterencode f 0 r) = Inr b \<and>
           files s3 (resolve s (json_path d)) = Some (Whole b)))"
proof -
  have step: "cwd b = cwd a \<and> (\<forall>q. q \<noteq> resolve a p \<longrightarrow> files b q = files a q)"
    if "with_open_w a p body = (x, b)" for a b p body x
    using with_open_w_frame [OF that] by simp
  have res: "resolve b p = resolve a p" if "cwd b = cwd a" for a b :: fs and p
    using that by (simp add: resolve_def)
  show ?thesis
  proof (intro conjI impI)
    assume a: "makedirs s d = (Inr (), s0) \<and> with_open_w s0 (txt_path d) (txt_body r) = (Inl e, s1)"
    then have m: "makedirs s d = (Inr (), s0)" and w1: "with_open_w s0 (txt_path d) (txt_body r) = (Inl e, s1)"
      by simp_all
    note d = makedirs_nonempty [OF m] and f0 = makedirs_frame [OF m]
    note P = file_paths_distinct [OF d, of s]
    have r0: "resolve s0 p = resolve s p" for p using f0 by (intro res) simp
    show "save_transcript f r d s = (Inl e, s1)" by (simp add: save_transcript_def m w1)
    show "files s1 (resolve s (json_path d)) = files s (resolve s (json_path d))"
      "files s1 (resolve s (srt_path d)) = files s (resolve s (srt_path d))"
      using step [OF w1] P f0 by (simp_all add: r0)
  next
    assume a: "makedirs s d = (Inr (), s0) \<and> with_open_w s0 (txt_path d) (txt_body r) = (Inr (), s1) \<and>
      with_open_w s1 (json_path d) (Inr (iterencode f 0 r)) = (Inl e, s2)"
    then have m: "makedirs s d = (Inr (), s0)"
      and w1: "with_open_w s0 (txt_path d) (txt_body r) = (Inr (), s1)"
      and w2: "with_open_w s1 (json_path d) (Inr (iterencode f 0 r)) = (Inl e, s2)"
      by simp_all
    note d = makedirs_nonempty [OF m] and f0 = makedirs_frame [OF m]
    note P = file_paths_distinct [OF d, of s]
    have r0: "resolve s0 p = resolve s p" for p using f0 by (intro res) simp
    have r1: "resolve s1 p = resolve s p" for p using step [OF w1] f0 by (intro res) simp
    from with_open_w_ok [OF w1] obtain t b where
      t: "txt_body r = Inr t" "utf8_encode t = Inr b" "files s1 (resolve s (txt_path d)) = Some (Whole b)"
      unfolding r0 by blast
    show "save_transcript f r d s = (Inl e, s2)" by (simp add: save_transcript_def m w1 w2)
    show "\<exists>t b. txt_body r = Inr t \<and> utf8_encode t = Inr b \<and>
             files s2 (resolve s (txt_path d)) = Some (Whole b)"
      using t step [OF w2] P by (simp add: r1)
    show "files s2 (resolve s (srt_path d)) = files s (resolve s (srt_path d))"
      using step [OF w1] step [OF w2] P f0 by (simp add: r0 r1)
  next
    assume a: "makedirs s d = (Inr (), s0) \<and> with_open_w s0 (txt_path d) (txt_body r) = (Inr (), s1) \<and>
      with_open_w s1 (json_path d) (Inr (iterencode f 0 r)) = (Inr (), s2) \<and>
      with_open_w s2 (srt_path d) (srt_body r) = (Inl e, s3)"
    then have m: "makedirs s d = (Inr (), s0)"
      and w1: "with_open_w s0 (txt_path d) (txt_body r) = (Inr (), s1)"
      and w2: "with_open_w s1 (json_path d) (Inr (iterencode f 0 r)) = (Inr (), s2)"
      and w3: "with_open_w s2 (srt_path d) (srt_body r) = (Inl e, s3)"
      by simp_all
    note d = makedirs_nonempty [OF m] and f0 = makedirs_frame [OF m]
    note P = file_paths_distinct [OF d, of s]
    have r0: "resolve s0 p = resolve s p" for p using f0 by (intro res) simp
    have r1: "resolve s1 p = resolve s p" for p using step [OF w1] f0 by (intro res) simp
    have r2: "resolve s2 p = resolve s p" for p using step [OF w2] step [OF w1] f0 by (intro res) simp
    from with_open_w_ok [OF w1] obtain t b where
      t: "txt_body r = Inr t" "utf8_encode t = Inr b" "files s1 (resolve s (txt_path d)) = Some (Whole b)"
      unfolding r0 by blast
    from with_open_w_ok [OF w2] obtain b2 where
      j: "utf8_encode (iterencode f 0 r) = Inr b2" "files s2 (resolve s (json_path d)) = Some (Whole b2)"
      unfolding r1 by blast
    show "save_transcript f r d s = (Inl e, s3)" by (simp add: save_transcript_def m w1 w2 w3)
    show "\<exists>t b. txt_body r = Inr t \<and> utf8_encode t = Inr b \<and>
             files s3 (resolve s (txt_path d)) = Some (Whole b)"
      using t step [OF w2] step [OF w3] P by (simp add: r1 r2)
    show "\<exists>b. utf8_encode (iterencode f 0 r) = Inr b \<and>
           files s3 (resolve s (json_path d)) = Some (Whole b)"
      using j step [OF w3] P by (simp add: r2)
  qed
qed

theorem writes_in_order_witness:
  "save_transcript demo_frepr demo_result demo_dir demo_locked =
     (Inl (OSError EACCES [ascii ''home'', ascii ''out'', ascii ''run1'', ascii ''transcript.json'']),
      demo_partial) \<and>
   files demo_partial (resolve demo_locked (txt_path demo_dir)) = Some (Whole (ascii '' hello'')) \<and>
   files demo_partial (resolve demo_locked (srt_path demo_dir)) = None"
proof -
  let ?e = "OSError EACCES [ascii ''home'', ascii ''out'', ascii ''run1'', ascii ''transcript.json'']"
  have w2: "with_open_w demo_partial (json_path demo_dir) (Inr (iterencode demo_frepr 0 demo_result))
      = (Inl ?e, demo_partial)"
    using locked_json by (rule with_open_w_open_fails)
  from writes_in_order [of demo_locked demo_dir demo_made demo_result ?e demo_partial demo_frepr demo_partial]
    locked_makedirs locked_txt w2
  have "save_transcript demo_frepr demo_result demo_dir demo_locked = (Inl ?e, demo_partial)"
    "files demo_partial (resolve demo_locked (srt_path demo_dir))
       = files demo_locked (resolve demo_locked (srt_path demo_dir))"
    by blast+
  moreover have "files demo_locked p = None" for p by (simp add: demo_locked_def demo_fs_def)
  moreover have "files demo_partial (resolve demo_locked (txt_path demo_dir)) = Some (Whole (ascii '' hello''))"
    by (simp add: locked_resolve demo_paths demo_partial_def)
  ultimately show ?thesis by simp
qed

section \<open>The subtitle file\<close>










section \<open>Rounding and whole numbers\<close>















section \<open>The components of format\_time\<close>

















section \<open>The structured record file\<close>




lemma hex_digit_range: "a < 16 \<Longrightarrow> 48 \<le> hex_digit a \<and> hex_digit a \<le> 102"
  by (auto simp: hex_digit_def)













end
